theory Spec2Isabelle
  imports Complex_Main "HOL-Library.Log_Nat" "HOL-Library.Multiset"
    "HOL-Library.Char_ord" "HOL-Library.List_Lexorder"
begin

section \<open>Python values\<close>

text \<open>
  A path and a file name are Python \<open>str\<close>; an exception is carried as a value.  The
  messages of the source are Chinese text, so every message literal of the source is a
  constructor of its own rather than a string.
\<close>

type_synonym path = string

datatype exn =
    ValueError
  | ZeroDivisionError
  | IndexError
  | Raised string

subsection \<open>Floats\<close>

text \<open>
  A finite Python \<open>float\<close> is a binary64 number, modelled by its rational value.  An
  arithmetic operation on floats returns the exact result rounded to the nearest number
  with a 53-bit significand, ties to even.  The exponent is not bounded in the model:
  overflow and subnormal numbers are out of its range (no computation below comes near
  either), and so are NaN and the infinities.
\<close>

definition binade :: "rat \<Rightarrow> int" where
  "binade x =
     (let (a, b) = quotient_of \<bar>x\<bar>; e = bitlen a - bitlen b
      in if 2 powi e \<le> \<bar>x\<bar> then e else e - 1)"

definition round_half_even :: "rat \<Rightarrow> int" where
  "round_half_even y =
     (let f = \<lfloor>y\<rfloor>; r = y - of_int f
      in if r < 1 / 2 then f
         else if 1 / 2 < r then f + 1
         else if even f then f else f + 1)"

definition to_double :: "rat \<Rightarrow> rat" where
  "to_double x =
     (if x = 0 then 0
      else let u = 2 powi (binade x - 52)
           in of_int (round_half_even (x / u)) * u)"

definition float_mul :: "rat \<Rightarrow> rat \<Rightarrow> rat" where
  "float_mul x y = to_double (x * y)"

definition float_sub :: "rat \<Rightarrow> rat \<Rightarrow> rat" where
  "float_sub x y = to_double (x - y)"

definition float_div :: "rat \<Rightarrow> rat \<Rightarrow> exn + rat" where
  "float_div x y = (if y = 0 then Inl ZeroDivisionError else Inr (to_double (x / y)))"

text \<open>\<open>a / b\<close> on two \<open>int\<close>s is the correctly rounded quotient.\<close>

definition int_truediv :: "int \<Rightarrow> int \<Rightarrow> exn + rat" where
  "int_truediv a b =
     (if b = 0 then Inl ZeroDivisionError else Inr (to_double (of_int a / of_int b)))"

text \<open>\<open>int(x)\<close> truncates towards zero.\<close>

definition py_int :: "rat \<Rightarrow> int" where
  "py_int x = (if 0 \<le> x then \<lfloor>x\<rfloor> else \<lceil>x\<rceil>)"

section \<open>config.py\<close>

record config =
  MAX_WORKERS :: int
  BATCH_SIZE :: int
  IMAGE_CACHE_SIZE :: int
  BLUR_THRESHOLD :: rat
  OVEREXPOSURE_THRESHOLD :: rat
  UNDEREXPOSURE_THRESHOLD :: rat
  MAX_IMAGE_SIZE :: int
  RESIZE_SCALE :: rat
  SEARCH_BATCH_SIZE :: int

text \<open>The values taken when no environment variable overrides them.\<close>

definition default_config :: config where
  "default_config =
     \<lparr>MAX_WORKERS = 2, BATCH_SIZE = 10, IMAGE_CACHE_SIZE = 30,
      BLUR_THRESHOLD = 30,
      OVEREXPOSURE_THRESHOLD = to_double (95 / 100),
      UNDEREXPOSURE_THRESHOLD = to_double (5 / 100),
      MAX_IMAGE_SIZE = 500000, RESIZE_SCALE = 1 / 4,
      SEARCH_BATCH_SIZE = 25\<rparr>"

section \<open>photo\_quality\_checker.py\<close>

text \<open>
  The decoding and the pixel arithmetic are OpenCV's and NumPy's.  They are the fields of
  \<open>cv2\<close>, over any type \<open>'img\<close> of decoded images; each may raise.
  \<^item> \<open>imread\<close>: \<open>cv2.imread(path, IMREAD_GRAYSCALE)\<close>, \<open>None\<close> for a file it cannot decode;
  \<^item> \<open>shape\<close>: \<open>(h, w)\<close>;
  \<^item> \<open>resize\<close>: \<open>cv2.resize(img, (new_w, new_h))\<close>;
  \<^item> \<open>laplacian_var\<close>: \<open>float(np.var(cv2.Laplacian(img, CV_64F, ksize=3)))\<close>;
  \<^item> \<open>exposure_ratios\<close>: the pair \<open>(overexposed_pixels, underexposed_pixels)\<close> that lines
    71 to 85 of \<open>detect_exposure\<close> compute from the image (sampling every fifth pixel of
    a large image, a histogram of 64 buckets, the mass of buckets 60.. and ..3 over the
    number of sampled pixels).
\<close>

record 'img cv2 =
  imread :: "path \<Rightarrow> exn + 'img option"
  shape :: "'img \<Rightarrow> nat \<times> nat"
  resize :: "'img \<Rightarrow> int \<times> int \<Rightarrow> exn + 'img"
  laplacian_var :: "'img \<Rightarrow> exn + rat"
  exposure_ratios :: "'img \<Rightarrow> exn + rat \<times> rat"

text \<open>
  \<open>self.image_cache\<close> is a dict from path to image, in insertion order; a key is only
  inserted when it is absent.
\<close>

type_synonym 'img image_cache = "(path \<times> 'img) list"

definition get_gray_image ::
  "'img cv2 \<Rightarrow> config \<Rightarrow> 'img image_cache \<Rightarrow> path \<Rightarrow> 'img option \<times> 'img image_cache" where
  "get_gray_image cv cfg cache ipath =
     (case map_of cache ipath of
        Some img \<Rightarrow> (Some img, cache)
      | None \<Rightarrow>
         (case imread cv ipath of
            Inl e \<Rightarrow> (None, cache)
          | Inr None \<Rightarrow> (None, cache)
          | Inr (Some img_gray) \<Rightarrow>
             (let (h, w) = shape cv img_gray;
                  resized =
                    (if int (h * w) > MAX_IMAGE_SIZE cfg
                     then resize cv img_gray
                            (py_int (float_mul (of_nat w) (RESIZE_SCALE cfg)),
                             py_int (float_mul (of_nat h) (RESIZE_SCALE cfg)))
                     else Inr img_gray)
              in case resized of
                   Inl e \<Rightarrow> (None, cache)
                 | Inr img \<Rightarrow>
                    (Some img,
                     if int (length cache) < IMAGE_CACHE_SIZE cfg
                     then cache @ [(ipath, img)] else cache))))"

text \<open>
  The result of a detector is a dict with the keys \<open>is_defective\<close> and \<open>defect_type\<close> and
  the detector's own measurements (\<open>score\<close>; \<open>overexposed_ratio\<close> and
  \<open>underexposed_ratio\<close>; \<open>closed_eyes_count\<close>), which are absent from the result for an
  image that could not be read.
\<close>

datatype detection =
  Detection (measurements: "(string \<times> rat) list") (is_defective: bool)
    (defect_type: "string option")

definition detect_blur ::
  "'img cv2 \<Rightarrow> config \<Rightarrow> 'img image_cache \<Rightarrow> path \<Rightarrow> (exn + detection) \<times> 'img image_cache" where
  "detect_blur cv cfg cache ipath =
     (case get_gray_image cv cfg cache ipath of
        (None, cache') \<Rightarrow> (Inr (Detection [] False None), cache')
      | (Some img_gray, cache') \<Rightarrow>
         (case laplacian_var cv img_gray of
            Inl e \<Rightarrow> (Inl e, cache')
          | Inr blur_score \<Rightarrow>
             (let is_blurry = (blur_score < BLUR_THRESHOLD cfg)
              in (Inr (Detection [(''score'', blur_score)] is_blurry
                         (if is_blurry then Some ''blur'' else None)),
                  cache'))))"

definition detect_exposure ::
  "'img cv2 \<Rightarrow> config \<Rightarrow> 'img image_cache \<Rightarrow> path \<Rightarrow> (exn + detection) \<times> 'img image_cache" where
  "detect_exposure cv cfg cache ipath =
     (case get_gray_image cv cfg cache ipath of
        (None, cache') \<Rightarrow> (Inr (Detection [] False None), cache')
      | (Some img_gray, cache') \<Rightarrow>
         (case exposure_ratios cv img_gray of
            Inl e \<Rightarrow> (Inl e, cache')
          | Inr (overexposed_pixels, underexposed_pixels) \<Rightarrow>
             (let is_overexposed = (overexposed_pixels > OVEREXPOSURE_THRESHOLD cfg);
                  is_underexposed = (underexposed_pixels > UNDEREXPOSURE_THRESHOLD cfg)
              in (Inr (Detection
                         [(''overexposed_ratio'', overexposed_pixels),
                          (''underexposed_ratio'', underexposed_pixels)]
                         (is_overexposed \<or> is_underexposed)
                         (if is_overexposed then Some ''overexposed''
                          else if is_underexposed then Some ''underexposed''
                          else None)),
                  cache'))))"

definition detect_closed_eyes :: "path \<Rightarrow> detection" where
  "detect_closed_eyes ipath = Detection [(''closed_eyes_count'', 0)] False None"

text \<open>\<open>if d["defect_type"]: defect_types.append(d["defect_type"])\<close>: a string is true when
  it is not empty.\<close>

definition append_defect :: "string list \<Rightarrow> detection \<Rightarrow> string list" where
  "append_defect defect_types d =
     (case defect_type d of
        None \<Rightarrow> defect_types
      | Some t \<Rightarrow> if t = [] then defect_types else defect_types @ [t])"

datatype quality_report =
  QualityReport (image_path: path) (is_defective: bool) (defect_types: "string list")
    (details: "(string \<times> detection) list")

definition check_photo_quality ::
  "'img cv2 \<Rightarrow> config \<Rightarrow> 'img image_cache \<Rightarrow> path
     \<Rightarrow> (exn + quality_report) \<times> 'img image_cache" where
  "check_photo_quality cv cfg cache ipath =
     (case detect_blur cv cfg cache ipath of
        (Inl e, c1) \<Rightarrow> (Inl e, c1)
      | (Inr blur_result, c1) \<Rightarrow>
         (case detect_exposure cv cfg c1 ipath of
            (Inl e, c2) \<Rightarrow> (Inl e, c2)
          | (Inr exposure_result, c2) \<Rightarrow>
             (let eyes_result = detect_closed_eyes ipath
              in (Inr (QualityReport ipath
                         (detection.is_defective blur_result
                            \<or> detection.is_defective eyes_result
                            \<or> detection.is_defective exposure_result)
                         (append_defect
                            (append_defect (append_defect [] blur_result) eyes_result)
                            exposure_result)
                         [(''blur'', blur_result), (''eyes'', eyes_result),
                          (''exposure'', exposure_result)]),
                  c2))))"

section \<open>main.py: the batch worker\<close>

text \<open>
  \<open>process_batch_photos\<close> runs in a pool thread over one sub-batch; \<open>quality_checker\<close>
  and with it the image cache are shared, so the cache is passed through.
\<close>

fun process_batch_photos ::
  "'img cv2 \<Rightarrow> config \<Rightarrow> 'img image_cache \<Rightarrow> path list
     \<Rightarrow> quality_report list \<times> 'img image_cache" where
  "process_batch_photos cv cfg cache [] = ([], cache)"
| "process_batch_photos cv cfg cache (p # batch_paths) =
     (let (checked, cache') = check_photo_quality cv cfg cache p;
          result = (case checked of
                      Inr result \<Rightarrow> result
                    | Inl e \<Rightarrow> QualityReport p False [] []);
          (batch_results, cache'') = process_batch_photos cv cfg cache' batch_paths
      in (result # batch_results, cache''))"

section \<open>main.py: the scanner\<close>

text \<open>
  What the process sees of the file system: the names in a directory (none for a path
  that cannot be listed: \<open>glob\<close> swallows the \<open>OSError\<close>) and \<open>os.path.exists\<close>.
  Paths are POSIX paths (\<open>posixpath\<close>), for which \<open>fnmatch\<close> compares names as they are.
\<close>

record filesystem =
  os_listdir :: "path \<Rightarrow> string list"
  os_path_exists :: "path \<Rightarrow> bool"

definition os_path_join :: "path \<Rightarrow> string \<Rightarrow> path" where
  "os_path_join a b =
     (if b \<noteq> [] \<and> hd b = CHR ''/'' then b
      else if a = [] \<or> last a = CHR ''/'' then a @ b
      else a @ ''/'' @ b)"

text \<open>\<open>os.path.split(p)[0]\<close> and \<open>os.path.basename(p)\<close>: the text up to the last slash,
  without its trailing slashes unless it is all slashes, and the text after it.\<close>

definition os_path_dirname_split :: "path \<Rightarrow> path" where
  "os_path_dirname_split p =
     (let head = rev (dropWhile (\<lambda>c. c \<noteq> CHR ''/'') (rev p))
      in if head \<noteq> [] \<and> (\<exists>c \<in> set head. c \<noteq> CHR ''/'')
         then rev (dropWhile (\<lambda>c. c = CHR ''/'') (rev head))
         else head)"

definition os_path_basename :: "path \<Rightarrow> string" where
  "os_path_basename p = rev (takeWhile (\<lambda>c. c \<noteq> CHR ''/'') (rev p))"

definition endswith :: "string \<Rightarrow> string \<Rightarrow> bool" where
  "endswith s suffix = (take (length suffix) (rev s) = rev suffix)"

definition ishidden :: "string \<Rightarrow> bool" where
  "ishidden name = (name \<noteq> [] \<and> hd name = CHR ''.'')"

text \<open>
  \<open>glob.glob(os.path.join(folder_path, f"*{ext}"), recursive=False)\<close> for a folder path
  without the wildcard characters \<open>*\<close>, \<open>?\<close> and \<open>[\<close>, and an extension without them:
  the names of the folder's listing that do not start with a dot and that match
  \<open>*ext\<close>, each joined to the folder.
\<close>

definition glob_ext :: "filesystem \<Rightarrow> path \<Rightarrow> string \<Rightarrow> path list" where
  "glob_ext fs folder_path ext =
     (let dirname = os_path_dirname_split (os_path_join folder_path (''*'' @ ext))
      in map (os_path_join dirname)
           (filter (\<lambda>name. \<not> ishidden name \<and> endswith name ext) (os_listdir fs dirname)))"

definition image_extensions :: "string list" where
  "image_extensions =
     [''.jpg'', ''.jpeg'', ''.png'', ''.bmp'', ''.JPG'', ''.JPEG'', ''.PNG'', ''.BMP'']"

definition get_image_files :: "filesystem \<Rightarrow> path \<Rightarrow> path list" where
  "get_image_files fs folder_path =
     (let photo_paths = concat (map (glob_ext fs folder_path) image_extensions)
      in sorted_list_of_set (set photo_paths))"

section \<open>semantic\_search.py\<close>

text \<open>
  The embedding model is CLIP's.  \<open>clip_available\<close> is the flag set when the model has been
  loaded (\<open>self.model\<close> and \<open>self.clip_module\<close> are set with it); \<open>encode_image\<close> and
  \<open>encode_text\<close> are the normalised embedding of an image file and of a text as a list
  of floats, or the exception that opening the file or running the model raises.
\<close>

record clip =
  clip_available :: bool
  encode_image :: "path \<Rightarrow> exn + rat list"
  encode_text :: "string \<Rightarrow> exn + rat list"

definition get_image_embedding :: "clip \<Rightarrow> filesystem \<Rightarrow> path \<Rightarrow> rat list option" where
  "get_image_embedding model fs ipath =
     (if \<not> clip_available model then None
      else if \<not> os_path_exists fs ipath then None
      else case encode_image model ipath of
             Inl e \<Rightarrow> None
           | Inr image_embedding \<Rightarrow> Some image_embedding)"

definition get_text_embedding :: "clip \<Rightarrow> string \<Rightarrow> rat list option" where
  "get_text_embedding model text =
     (if \<not> clip_available model then None
      else case encode_text model text of
             Inl e \<Rightarrow> None
           | Inr text_embedding \<Rightarrow> Some text_embedding)"

text \<open>
  The vector store is ChromaDB's: a collection in a state \<open>'s\<close>, with the calls the source
  makes on it.  A call that raises leaves the state as it was.  The metadata of an entry
  is a dict from strings to strings and ints.
\<close>

datatype md_value = MdStr string | MdInt int

type_synonym metadata = "(string \<times> md_value) list"

record query_result =
  metadatas :: "metadata list list option"
  distances :: "rat list list option"

record 's chroma =
  coll_count :: "'s \<Rightarrow> exn + nat"
  coll_add :: "string list \<times> rat list list \<times> metadata list \<Rightarrow> 's \<Rightarrow> exn + 's"
  coll_query :: "rat list \<Rightarrow> int \<Rightarrow> 's \<Rightarrow> exn + query_result"
  delete_collection :: "'s \<Rightarrow> exn + 's"
  get_or_create_collection :: "'s \<Rightarrow> exn + 's"

definition clear_collection :: "'s chroma \<Rightarrow> 's \<Rightarrow> (exn + unit) \<times> 's" where
  "clear_collection db s =
     (let s' = (case delete_collection db s of Inl e \<Rightarrow> s | Inr s' \<Rightarrow> s')
      in case get_or_create_collection db s' of
           Inl e \<Rightarrow> (Inl e, s')
         | Inr s'' \<Rightarrow> (Inr (), s''))"

text \<open>\<open>str(idx)\<close> for an index of the loop.\<close>

fun str_nat :: "nat \<Rightarrow> string" where
  "str_nat n =
     (if n < 10 then [char_of (48 + n)]
      else str_nat (n div 10) @ [char_of (48 + n mod 10)])"

text \<open>\<open>all(abs(v) < 0.000001 for v in embedding[:10])\<close>; the literal is the float nearest
  to one millionth.\<close>

definition near_zero :: "rat list \<Rightarrow> bool" where
  "near_zero embedding =
     list_all (\<lambda>v. \<bar>v\<bar> < to_double (1 / 1000000)) (take 10 embedding)"

text \<open>\<open>photo_id = f"{filename}_{idx}"\<close> and the metadata dict of an entry.\<close>

definition photo_id :: "nat \<Rightarrow> path \<Rightarrow> string" where
  "photo_id idx photo_path = os_path_basename photo_path @ ''_'' @ str_nat idx"

definition photo_metadata :: "nat \<Rightarrow> path \<Rightarrow> metadata" where
  "photo_metadata idx photo_path =
     [(''path'', MdStr photo_path), (''filename'', MdStr (os_path_basename photo_path)),
      (''index'', MdInt (int idx))]"

text \<open>
  The loop of \<open>index_photos\<close> over \<open>enumerate(photo_paths)\<close>, from index \<open>idx\<close> on, with its
  variables \<open>ids\<close>, \<open>embeddings\<close>, \<open>metadatas\<close>, \<open>indexed_count\<close>, \<open>failed_count\<close> and
  \<open>indexed_filenames\<close>.
\<close>

type_synonym index_vars =
  "string list \<times> rat list list \<times> metadata list \<times> nat \<times> nat \<times> string set"

fun index_loop ::
  "clip \<Rightarrow> filesystem \<Rightarrow> nat \<Rightarrow> path list \<Rightarrow> index_vars \<Rightarrow> index_vars" where
  "index_loop model fs idx [] vars = vars"
| "index_loop model fs idx (photo_path # rest)
     (ids, embeddings, mds, indexed_count, failed_count, indexed_filenames) =
     index_loop model fs (Suc idx) rest
       (if \<not> os_path_exists fs photo_path
        then (ids, embeddings, mds, indexed_count, failed_count + 1, indexed_filenames)
        else
          let filename = os_path_basename photo_path
          in if filename \<in> indexed_filenames
             then (ids, embeddings, mds, indexed_count, failed_count, indexed_filenames)
             else
               (case get_image_embedding model fs photo_path of
                  None \<Rightarrow>
                    (ids, embeddings, mds, indexed_count, failed_count + 1, indexed_filenames)
                | Some embedding \<Rightarrow>
                    if embedding = []
                    then (ids, embeddings, mds, indexed_count, failed_count + 1,
                          indexed_filenames)
                    else if near_zero embedding
                    then (ids, embeddings, mds, indexed_count, failed_count + 1,
                          indexed_filenames)
                    else
                      (ids @ [photo_id idx photo_path],
                       embeddings @ [embedding],
                       mds @ [photo_metadata idx photo_path],
                       indexed_count + 1, failed_count,
                       insert filename indexed_filenames)))"

definition index_photos ::
  "clip \<Rightarrow> filesystem \<Rightarrow> 's chroma \<Rightarrow> path list \<Rightarrow> bool \<Rightarrow> 's \<Rightarrow> (exn + nat) \<times> 's" where
  "index_photos model fs db photo_paths clear_existing s =
     (if photo_paths = [] then (Inr 0, s)
      else if \<not> clip_available model then (Inr 0, s)
      else
        case (if clear_existing
              then (case coll_count db s of
                      Inl e \<Rightarrow> (Inl e, s)
                    | Inr existing_count \<Rightarrow>
                        if existing_count > 0 then clear_collection db s else (Inr (), s))
              else (Inr (), s)) of
          (Inl e, s1) \<Rightarrow> (Inl e, s1)
        | (Inr u, s1) \<Rightarrow>
           (case index_loop model fs 0 photo_paths ([], [], [], 0, 0, {}) of
              (ids, embeddings, mds, indexed_count, failed_count, indexed_filenames) \<Rightarrow>
                if ids \<noteq> []
                then (case coll_add db (ids, embeddings, mds) s1 of
                        Inl e \<Rightarrow> (Inr 0, s1)
                      | Inr s2 \<Rightarrow>
                         (case coll_count db s2 of
                            Inl e \<Rightarrow> (Inr 0, s2)
                          | Inr new_count \<Rightarrow> (Inr indexed_count, s2)))
                else (Inr indexed_count, s1)))"

text \<open>\<open>similarity = 1.0 - (distance / 2.0)\<close>, then \<open>max(0.0, min(1.0, similarity))\<close>.\<close>

definition similarity :: "rat \<Rightarrow> rat" where
  "similarity distance = max 0 (min 1 (float_sub 1 (to_double (distance / 2))))"

datatype search_result =
  SearchResult (rank: nat) (similarity_score: rat) (path: md_value) (filename: md_value)

definition md_get :: "metadata \<Rightarrow> string \<Rightarrow> md_value \<Rightarrow> md_value" where
  "md_get md key dflt = (case map_of md key of None \<Rightarrow> dflt | Some v \<Rightarrow> v)"

text \<open>The loop over \<open>enumerate(results["metadatas"][0])\<close>, from index \<open>idx\<close> on; a missing
  distance is an \<open>IndexError\<close>, which nothing catches.\<close>

fun search_results_loop ::
  "query_result \<Rightarrow> nat \<Rightarrow> metadata list \<Rightarrow> exn + search_result list" where
  "search_results_loop results idx [] = Inr []"
| "search_results_loop results idx (md # rest) =
     (case (case distances results of
              None \<Rightarrow> Inr (1 / 2)
            | Some [] \<Rightarrow> Inr (1 / 2)
            | Some (d0 # ds) \<Rightarrow>
                if d0 = [] then Inr (1 / 2)
                else if idx < length d0 then Inr (similarity (d0 ! idx))
                else Inl IndexError) of
        Inl e \<Rightarrow> Inl e
      | Inr sim \<Rightarrow>
         (case search_results_loop results (Suc idx) rest of
            Inl e \<Rightarrow> Inl e
          | Inr search_results \<Rightarrow>
              Inr (SearchResult (idx + 1) sim (md_get md ''path'' (MdStr []))
                     (md_get md ''filename'' (MdStr [])) # search_results)))"

definition search_photos ::
  "clip \<Rightarrow> 's chroma \<Rightarrow> string \<Rightarrow> int \<Rightarrow> 's \<Rightarrow> exn + search_result list" where
  "search_photos model db query_text top_k s =
     (if \<not> clip_available model then Inr []
      else case get_text_embedding model query_text of
             None \<Rightarrow> Inr []
           | Some text_embedding \<Rightarrow>
              if text_embedding = [] then Inr []
              else case coll_count db s of
                     Inl e \<Rightarrow> Inl e
                   | Inr collection_count \<Rightarrow>
                      if collection_count = 0 then Inr []
                      else case coll_query db text_embedding
                                  (min top_k (int collection_count)) s of
                             Inl e \<Rightarrow> Inr []
                           | Inr results \<Rightarrow>
                              (case metadatas results of
                                 None \<Rightarrow> Inr []
                               | Some [] \<Rightarrow> Inr []
                               | Some (m0 # ms) \<Rightarrow> search_results_loop results 0 m0))"

section \<open>main.py: jobs\<close>

text \<open>
  The messages of a job and of a response, one constructor per message literal of the
  source, with the values it interpolates.
\<close>

datatype message =
    TaskCreated
  | ScanningFolder
  | NoImagesFound
  | FoundPhotos int
  | ProcessingPhotos int int
  | BuildingIndex nat
  | IndexProgress int int
  | ProcessingDone
  | ProcessingFailed exn
  | FolderMissing
  | ProcessingStarted

datatype job_status = Pending | Initializing | Processing | Completed | Error

datatype photo_summary =
  PhotoSummary (summary_image_path: path) (summary_filename: string)
    (summary_is_defective: bool) (summary_defect_types: "string list")

record result_data =
  total_photos :: int
  bad_photos :: nat
  qualified_photos :: nat
  indexed_photos :: nat
  photos :: "photo_summary list"

text \<open>An entry of \<open>processing_tasks\<close>.\<close>

record job =
  task_id :: string
  status :: job_status
  progress :: int
  current :: int
  total :: int
  message :: message
  result :: "result_data option"

text \<open>
  What a job runs on: OpenCV, the CLIP model, the file system, the vector store, the
  configuration, and the time at which each future of each batch completes (by the index
  at which the batch starts and the position of the future in the batch), which is the
  order in which \<open>as_completed\<close> yields them.
\<close>

record ('img, 's) deps =
  opencv :: "'img cv2"
  clip_model :: clip
  files :: filesystem
  chroma_db :: "'s chroma"
  conf :: config
  finish_time :: "int \<Rightarrow> nat \<Rightarrow> nat"

text \<open>
  The job is read by the status endpoint between any two updates, so a run is modelled by
  its history: the list of the states of its entry in \<open>processing_tasks\<close>, one per
  \<open>update\<close>, oldest first.  \<open>job_update f h\<close> is \<open>processing_tasks[task_id].update(...)\<close>.
\<close>

definition job_update :: "(job \<Rightarrow> job) \<Rightarrow> job list \<Rightarrow> job list" where
  "job_update f history = history @ [f (last history)]"

text \<open>\<open>range(0, stop, step)\<close> for \<open>stop\<close> that is not negative, and \<open>xs[a:b]\<close> for
  \<open>0 \<le> a \<le> b\<close>.\<close>

definition py_range :: "int \<Rightarrow> int \<Rightarrow> exn + int list" where
  "py_range stop step =
     (if step = 0 then Inl ValueError
      else if step < 0 \<or> stop \<le> 0 then Inr []
      else Inr (map (\<lambda>k. int k * step) [0..<nat ((stop + step - 1) div step)]))"

definition slice :: "'a list \<Rightarrow> int \<Rightarrow> int \<Rightarrow> 'a list" where
  "slice xs a b = take (nat (b - a)) (drop (nat a) xs)"

text \<open>
  The sub-batches of a batch, \<open>batch_paths[j:j + sub_batch_size]\<close> for \<open>j\<close> in
  \<open>range(0, len(batch_paths), sub_batch_size)\<close>, where \<open>sub_batch_size\<close> is positive.
\<close>

fun sub_batches :: "nat \<Rightarrow> 'a list \<Rightarrow> 'a list list" where
  "sub_batches sub_batch_size batch_paths =
     (if sub_batch_size = 0 \<or> batch_paths = [] then []
      else take sub_batch_size batch_paths
             # sub_batches sub_batch_size (drop sub_batch_size batch_paths))"

text \<open>
  The futures of one batch.  Each runs \<open>process_batch_photos\<close> on its sub-batch; they share
  the image cache, which is passed from one to the next in the order of submission
  (one of the interleavings of the pool; the cache decides which images are decoded
  again, not what a report says).  \<open>as_completed\<close> yields the results by completion time.
\<close>

fun run_futures ::
  "'img cv2 \<Rightarrow> config \<Rightarrow> 'img image_cache \<Rightarrow> path list list
     \<Rightarrow> quality_report list list \<times> 'img image_cache" where
  "run_futures cv cfg cache [] = ([], cache)"
| "run_futures cv cfg cache (sub_batch # rest) =
     (let (batch_results, cache') = process_batch_photos cv cfg cache sub_batch;
          (futures, cache'') = run_futures cv cfg cache' rest
      in (batch_results # futures, cache''))"

definition as_completed :: "(nat \<Rightarrow> nat) \<Rightarrow> 'a list \<Rightarrow> 'a list" where
  "as_completed finished futures =
     map snd (sort_key fst (zip (map finished [0..<length futures]) futures))"

text \<open>
  The screening loop of \<open>background_processing\<close> over the batch starts \<open>i\<close> that remain,
  with the history, \<open>quality_results\<close> and the image cache.  It returns the exception
  that ended it, if one did.
\<close>

fun screening_loop ::
  "('img, 's) deps \<Rightarrow> path list \<Rightarrow> int list
     \<Rightarrow> job list \<times> quality_report list \<times> 'img image_cache
     \<Rightarrow> exn option \<times> job list \<times> quality_report list \<times> 'img image_cache" where
  "screening_loop d photo_paths [] state = (None, state)"
| "screening_loop d photo_paths (i # rest) (history, quality_results, cache) =
     (let n = int (length photo_paths);
          batch_size = BATCH_SIZE (conf d);
          batch_paths = slice photo_paths i (i + batch_size);
          cur = min (i + batch_size) n
      in case int_truediv cur n of
           Inl e \<Rightarrow> (Some e, history, quality_results, cache)
         | Inr ratio \<Rightarrow>
            (let history' =
                   job_update
                     (\<lambda>j. j\<lparr>status := Processing,
                            progress := py_int (float_mul ratio 100),
                            current := cur,
                            message := ProcessingPhotos cur n\<rparr>)
                     history
             in if MAX_WORKERS (conf d) \<le> 0
                then (Some ValueError, history', quality_results, cache)
                else
                  (let sub_batch_size = max 1 (batch_size div MAX_WORKERS (conf d));
                       (futures, cache') =
                         run_futures (opencv d) (conf d) cache
                           (sub_batches (nat sub_batch_size) batch_paths)
                   in screening_loop d photo_paths rest
                        (history',
                         quality_results @ concat (as_completed (finish_time d i) futures),
                         cache'))))"

text \<open>
  The indexing loop over the chunk starts \<open>i\<close> that remain, with the history,
  \<open>indexed_count\<close> and the state of the store.
\<close>

fun indexing_loop ::
  "('img, 's) deps \<Rightarrow> path list \<Rightarrow> int list \<Rightarrow> job list \<times> nat \<times> 's
     \<Rightarrow> exn option \<times> job list \<times> nat \<times> 's" where
  "indexing_loop d qualified [] state = (None, state)"
| "indexing_loop d qualified (i # rest) (history, indexed_count, s) =
     (let search_batch_size = SEARCH_BATCH_SIZE (conf d);
          n = int (length qualified);
          batch = slice qualified i (i + search_batch_size)
      in case index_photos (clip_model d) (files d) (chroma_db d) batch (i = 0) s of
           (Inl e, s') \<Rightarrow> (Some e, history, indexed_count, s')
         | (Inr indexed, s') \<Rightarrow>
            (case int_truediv (i + int (length batch)) n of
               Inl e \<Rightarrow> (Some e, history, indexed_count + indexed, s')
             | Inr ratio \<Rightarrow>
                 indexing_loop d qualified rest
                   (job_update
                      (\<lambda>j. j\<lparr>progress := 70 + py_int (float_mul ratio 30),
                             message := IndexProgress (min (i + search_batch_size) n) n\<rparr>)
                      history,
                    indexed_count + indexed, s')))"

text \<open>\<open>except Exception as e\<close> around the whole of \<open>background_processing\<close>.\<close>

definition job_failed :: "exn \<Rightarrow> job list \<Rightarrow> job list" where
  "job_failed e history =
     job_update (\<lambda>j. j\<lparr>status := Error, message := ProcessingFailed e\<rparr>) history"

definition photo_summaries :: "quality_report list \<Rightarrow> photo_summary list" where
  "photo_summaries quality_results =
     map (\<lambda>r. PhotoSummary (image_path r) (os_path_basename (image_path r))
                (quality_report.is_defective r) (defect_types r))
       quality_results"

text \<open>
  \<open>background_processing\<close>, from the job as \<open>process_photos_async\<close> created it, the image
  cache and the state of the store: the history of the job, the cache and the store
  after it, and the globals \<open>processed_photos\<close> and \<open>QUALIFIED_PHOTOS\<close> when it set them.
\<close>

record ('img, 's) outcome =
  history :: "job list"
  image_cache :: "'img image_cache"
  store :: 's
  globals :: "((path \<times> quality_report) list \<times> path list) option"

definition background_processing ::
  "('img, 's) deps \<Rightarrow> path \<Rightarrow> job \<Rightarrow> 'img image_cache \<Rightarrow> 's \<Rightarrow> ('img, 's) outcome" where
  "background_processing d folder_path created cache s =
     (let h0 = job_update
                 (\<lambda>j. j\<lparr>status := Initializing, progress := 0, message := ScanningFolder\<rparr>)
                 [created];
          photo_paths = get_image_files (files d) folder_path;
          n = int (length photo_paths)
      in if n = 0
         then \<lparr>history =
                 job_update (\<lambda>j. j\<lparr>status := Error, message := NoImagesFound\<rparr>) h0,
               image_cache = cache, store = s, globals = None\<rparr>
         else
           (let h1 = job_update (\<lambda>j. j\<lparr>total := n, message := FoundPhotos n\<rparr>) h0
            in case py_range n (BATCH_SIZE (conf d)) of
                 Inl e \<Rightarrow>
                   \<lparr>history = job_failed e h1, image_cache = cache, store = s,
                    globals = None\<rparr>
               | Inr starts \<Rightarrow>
                  (case screening_loop d photo_paths starts (h1, [], cache) of
                     (Some e, h2, quality_results, cache') \<Rightarrow>
                       \<lparr>history = job_failed e h2, image_cache = cache', store = s,
                        globals = None\<rparr>
                   | (None, h2, quality_results, cache') \<Rightarrow>
                      (let qualified =
                             map image_path
                               (filter (\<lambda>r. \<not> quality_report.is_defective r)
                                  quality_results);
                           indexing =
                             (if qualified = [] then (None, h2, 0, s)
                              else
                                (let h3 = job_update
                                            (\<lambda>j. j\<lparr>message :=
                                                     BuildingIndex (length qualified)\<rparr>)
                                            h2
                                 in case py_range (int (length qualified))
                                           (SEARCH_BATCH_SIZE (conf d)) of
                                      Inl e \<Rightarrow> (Some e, h3, 0, s)
                                    | Inr starts' \<Rightarrow>
                                        indexing_loop d qualified starts' (h3, 0, s)))
                       in case indexing of
                            (Some e, h4, indexed_count, s') \<Rightarrow>
                              \<lparr>history = job_failed e h4, image_cache = [], store = s',
                               globals = None\<rparr>
                          | (None, h4, indexed_count, s') \<Rightarrow>
                              \<lparr>history =
                                 job_update
                                   (\<lambda>j. j\<lparr>status := Completed, progress := 100,
                                          message := ProcessingDone,
                                          result :=
                                            Some \<lparr>total_photos = n,
                                                  bad_photos =
                                                    length
                                                      (filter quality_report.is_defective
                                                         quality_results),
                                                  qualified_photos = length qualified,
                                                  indexed_photos = indexed_count,
                                                  photos = photo_summaries quality_results\<rparr>\<rparr>)
                                   h4,
                               image_cache = [], store = s',
                               globals =
                                 Some (map (\<lambda>r. (image_path r, r)) quality_results,
                                       qualified)\<rparr>))))"

text \<open>
  \<open>process_photos_async\<close> at the time \<open>now_ms\<close> in milliseconds: the response and
  \<open>processing_tasks\<close> after it.  The run of \<open>background_processing\<close> that it schedules for
  a created job follows the response.
\<close>

datatype submit_response =
    ErrorResponse message
  | StartedResponse string message

definition created_job :: "string \<Rightarrow> job" where
  "created_job tid =
     \<lparr>task_id = tid, status = Pending, progress = 0, current = 0, total = 0,
      message = TaskCreated, result = None\<rparr>"

definition process_photos_async ::
  "filesystem \<Rightarrow> nat \<Rightarrow> path \<Rightarrow> (string \<rightharpoonup> job) \<Rightarrow> submit_response \<times> (string \<rightharpoonup> job)" where
  "process_photos_async fs now_ms folder_path processing_tasks =
     (if \<not> os_path_exists fs folder_path
      then (ErrorResponse FolderMissing, processing_tasks)
      else
        (let tid = str_nat now_ms
         in (StartedResponse tid ProcessingStarted,
             processing_tasks(tid \<mapsto> created_job tid))))"

section \<open>Notions of the specification\<close>

text \<open>
  A path is embeddable when \<open>index_photos\<close> finds its file and gets a usable embedding for
  it: \<open>get_image_embedding\<close> returns a list that is not empty and whose first ten
  components are not all near zero.
\<close>

definition embeddable :: "clip \<Rightarrow> filesystem \<Rightarrow> path \<Rightarrow> bool" where
  "embeddable model fs photo_path =
     (os_path_exists fs photo_path \<and>
      (case get_image_embedding model fs photo_path of
         None \<Rightarrow> False
       | Some embedding \<Rightarrow> embedding \<noteq> [] \<and> \<not> near_zero embedding))"

text \<open>
  Deduplication by file name in the specification's words, "first occurrence wins":
  of the numbered paths, the first is kept and every later one with its file name is
  dropped, and so on for the rest.
\<close>

fun first_per_filename :: "(nat \<times> path) list \<Rightarrow> (nat \<times> path) list" where
  "first_per_filename [] = []"
| "first_per_filename (x # xs) =
     x # first_per_filename
           (filter (\<lambda>y. os_path_basename (snd y) \<noteq> os_path_basename (snd x)) xs)"

section \<open>Example inputs\<close>

text \<open>A decoder for which no file is an image, and one for which every file is a small
  image with the given measurements.\<close>

definition unreadable :: "unit cv2" where
  "unreadable =
     \<lparr>imread = (\<lambda>p. Inr None), shape = (\<lambda>i. (0, 0)), resize = (\<lambda>i s. Inr i),
      laplacian_var = (\<lambda>i. Inr 0), exposure_ratios = (\<lambda>i. Inr (0, 0))\<rparr>"

definition measured :: "rat \<Rightarrow> rat \<Rightarrow> rat \<Rightarrow> unit cv2" where
  "measured blur ov un =
     \<lparr>imread = (\<lambda>p. Inr (Some ())), shape = (\<lambda>i. (480, 640)), resize = (\<lambda>i s. Inr i),
      laplacian_var = (\<lambda>i. Inr blur), exposure_ratios = (\<lambda>i. Inr (ov, un))\<rparr>"

definition thresholds :: config where
  "thresholds = default_config
     \<lparr>OVEREXPOSURE_THRESHOLD := 1 / 2, UNDEREXPOSURE_THRESHOLD := 1 / 4\<rparr>"

text \<open>A folder \<open>/photos\<close> with the given names in it.\<close>

definition photos_folder :: "string list \<Rightarrow> filesystem" where
  "photos_folder names =
     \<lparr>os_listdir = (\<lambda>d. if d = ''/photos'' then names else []),
      os_path_exists =
        (\<lambda>p. p = ''/photos'' \<or> p \<in> set (map (os_path_join ''/photos'') names))\<rparr>"

text \<open>
  A model that embeds every file as the same unit vector; a store that keeps the added
  batches in a list and never fails; a store on which every call raises.
\<close>

definition constant_clip :: clip where
  "constant_clip =
     \<lparr>clip_available = True, encode_image = (\<lambda>p. Inr [1, 0]), encode_text = (\<lambda>t. Inr [1, 0])\<rparr>"

definition list_store :: "(string list \<times> rat list list \<times> metadata list) list chroma" where
  "list_store =
     \<lparr>coll_count = (\<lambda>s. Inr (length (concat (map fst s)))),
      coll_add = (\<lambda>batch s. Inr (s @ [batch])),
      coll_query = (\<lambda>v k s. Inr \<lparr>metadatas = Some [concat (map (snd \<circ> snd) s)],
                                 distances = Some [map (\<lambda>md. 1) (concat (map (snd \<circ> snd) s))]\<rparr>),
      delete_collection = (\<lambda>s. Inr []),
      get_or_create_collection = (\<lambda>s. Inr s)\<rparr>"

definition broken_store :: "unit chroma" where
  "broken_store =
     \<lparr>coll_count = (\<lambda>s. Inl (Raised ''count'')),
      coll_add = (\<lambda>batch s. Inl (Raised ''add'')),
      coll_query = (\<lambda>v k s. Inl (Raised ''query'')),
      delete_collection = (\<lambda>s. Inl (Raised ''delete'')),
      get_or_create_collection = (\<lambda>s. Inl (Raised ''create''))\<rparr>"



text \<open>
  A folder \<open>/photos\<close> of \<open>n\<close> sharp, well exposed photos with distinct names, processed
  under the default configuration with the constant model and the list store; the
  futures of a batch complete in the order of submission.
\<close>

definition photo_names :: "nat \<Rightarrow> string list" where
  "photo_names n = map (\<lambda>k. ''p'' @ str_nat k @ ''.jpg'') [0..<n]"

definition studio ::
  "nat \<Rightarrow> (unit, (string list \<times> rat list list \<times> metadata list) list) deps" where
  "studio n =
     \<lparr>opencv = measured 100 0 0, clip_model = constant_clip,
      files = photos_folder (photo_names n), chroma_db = list_store,
      conf = default_config, finish_time = (\<lambda>i k. k)\<rparr>"

text \<open>The same folder and configuration when every call on the vector store raises.\<close>

definition outage :: "nat \<Rightarrow> (unit, unit) deps" where
  "outage n =
     \<lparr>opencv = measured 100 0 0, clip_model = constant_clip,
      files = photos_folder (photo_names n), chroma_db = broken_store,
      conf = default_config, finish_time = (\<lambda>i k. k)\<rparr>"

section \<open>Properties\<close>

subsection \<open>The quality checker\<close>

lemma detect_blur_type:
  assumes "detect_blur cv cfg cache p = (Inr b, c1)"
  shows "defect_type b = (if detection.is_defective b then Some ''blur'' else None)"
proof (cases "get_gray_image cv cfg cache p")
  case (Pair g c)
  with assms show ?thesis
    by (cases g; cases "laplacian_var cv (the g)")
       (auto simp: detect_blur_def Let_def)
qed

lemma detect_exposure_type:
  assumes "detect_exposure cv cfg cache p = (Inr x, c2)"
  shows "(case (map_of (measurements x) ''overexposed_ratio'',
                map_of (measurements x) ''underexposed_ratio'') of
            (Some ov, Some un) \<Rightarrow>
               detection.is_defective x =
                 (ov > OVEREXPOSURE_THRESHOLD cfg \<or> un > UNDEREXPOSURE_THRESHOLD cfg) \<and>
               defect_type x =
                 (if ov > OVEREXPOSURE_THRESHOLD cfg then Some ''overexposed''
                  else if un > UNDEREXPOSURE_THRESHOLD cfg then Some ''underexposed''
                  else None)
          | _ \<Rightarrow> \<not> detection.is_defective x \<and> defect_type x = None)"
proof (cases "get_gray_image cv cfg cache p")
  case (Pair g c)
  with assms show ?thesis
    by (cases g; cases "exposure_ratios cv (the g)")
       (auto simp: detect_exposure_def Let_def)
qed

lemma check_photo_quality_Inr:
  assumes "check_photo_quality cv cfg cache p = (Inr rep, cache')"
  obtains b x c1 where
    "detect_blur cv cfg cache p = (Inr b, c1)"
    "detect_exposure cv cfg c1 p = (Inr x, cache')"
    "rep = QualityReport p
         (detection.is_defective b \<or> detection.is_defective (detect_closed_eyes p)
            \<or> detection.is_defective x)
         (append_defect (append_defect (append_defect [] b) (detect_closed_eyes p)) x)
         [(''blur'', b), (''eyes'', detect_closed_eyes p), (''exposure'', x)]"
proof (cases "detect_blur cv cfg cache p")
  case blur: (Pair rb c1)
  show ?thesis
  proof (cases "detect_exposure cv cfg c1 p")
    case expo: (Pair rx c2)
    from assms blur expo show ?thesis
      by (cases rb; cases rx) (auto simp: check_photo_quality_def Let_def intro: that)
  qed
qed

text \<open>
  C5.  Whenever \<open>check_photo_quality\<close> returns a report, its \<open>is_defective\<close> is the
  disjunction of the blur, exposure and eyes detectors' \<open>is_defective\<close>, and its
  \<open>defect_types\<close> lists the triggered checks in the order blur, exposure kind, eyes: the
  exposure kind is \<open>overexposed\<close> when the overexposed ratio exceeds its threshold, and
  otherwise \<open>underexposed\<close> when the underexposed ratio exceeds its threshold.  (The source
  appends the eyes detector's type before the exposure detector's; the eyes detector is a
  stub that never reports a defect, so no report shows the difference.)
\<close>

theorem check_photo_quality_defects:
  assumes "check_photo_quality cv cfg cache p = (Inr rep, cache')"
  shows "\<exists>b x c1.
           detect_blur cv cfg cache p = (Inr b, c1) \<and>
           detect_exposure cv cfg c1 p = (Inr x, cache') \<and>
           quality_report.is_defective rep =
             (detection.is_defective b \<or> detection.is_defective x
                \<or> detection.is_defective (detect_closed_eyes p)) \<and>
           defect_types rep =
             (if detection.is_defective b then [''blur''] else [])
             @ (case (map_of (measurements x) ''overexposed_ratio'',
                      map_of (measurements x) ''underexposed_ratio'') of
                  (Some ov, Some un) \<Rightarrow>
                    if ov > OVEREXPOSURE_THRESHOLD cfg then [''overexposed'']
                    else if un > UNDEREXPOSURE_THRESHOLD cfg then [''underexposed'']
                    else []
                | _ \<Rightarrow> [])
             @ (if detection.is_defective (detect_closed_eyes p) then [''closed_eyes''] else [])"
proof -
  from assms obtain b x c1 where
    blur: "detect_blur cv cfg cache p = (Inr b, c1)" and
    expo: "detect_exposure cv cfg c1 p = (Inr x, cache')" and
    rep: "rep = QualityReport p
         (detection.is_defective b \<or> detection.is_defective (detect_closed_eyes p)
            \<or> detection.is_defective x)
         (append_defect (append_defect (append_defect [] b) (detect_closed_eyes p)) x)
         [(''blur'', b), (''eyes'', detect_closed_eyes p), (''exposure'', x)]"
    by (rule check_photo_quality_Inr)
  have eyes: "detect_closed_eyes p = Detection [(''closed_eyes_count'', 0)] False None"
    by (simp add: detect_closed_eyes_def)
  have types: "defect_types rep =
      (if detection.is_defective b then [''blur''] else [])
      @ (case (map_of (measurements x) ''overexposed_ratio'',
                      map_of (measurements x) ''underexposed_ratio'') of
                  (Some ov, Some un) \<Rightarrow>
                    if ov > OVEREXPOSURE_THRESHOLD cfg then [''overexposed'']
                    else if un > UNDEREXPOSURE_THRESHOLD cfg then [''underexposed'']
                    else []
                | _ \<Rightarrow> [])"
    using detect_blur_type [OF blur] detect_exposure_type [OF expo]
    by (auto simp: rep eyes append_defect_def split: option.splits if_splits)
  have "quality_report.is_defective rep =
             (detection.is_defective b \<or> detection.is_defective x
                \<or> detection.is_defective (detect_closed_eyes p))"
    by (auto simp: rep)
  with blur expo types show ?thesis
    by (simp add: eyes)
qed


theorem check_photo_quality_defects_witness:
  "check_photo_quality (measured 10 0 (1 / 2)) thresholds [] ''a.jpg'' =
     (Inr (QualityReport ''a.jpg'' True [''blur'', ''underexposed'']
        [(''blur'', Detection [(''score'', 10)] True (Some ''blur'')),
         (''eyes'', Detection [(''closed_eyes_count'', 0)] False None),
         (''exposure'',
          Detection [(''overexposed_ratio'', 0), (''underexposed_ratio'', 1 / 2)] True
            (Some ''underexposed''))]),
      [(''a.jpg'', ())])
   \<and> (\<exists>b x c1.
        detect_blur (measured 10 0 (1 / 2)) thresholds [] ''a.jpg'' = (Inr b, c1) \<and>
        detect_exposure (measured 10 0 (1 / 2)) thresholds c1 ''a.jpg''
          = (Inr x, [(''a.jpg'', ())]) \<and>
        (detection.is_defective b \<or> detection.is_defective x
           \<or> detection.is_defective (detect_closed_eyes ''a.jpg'')))"
proof -
  have run: "check_photo_quality (measured 10 0 (1 / 2)) thresholds [] ''a.jpg'' =
     (Inr (QualityReport ''a.jpg'' True [''blur'', ''underexposed'']
        [(''blur'', Detection [(''score'', 10)] True (Some ''blur'')),
         (''eyes'', Detection [(''closed_eyes_count'', 0)] False None),
         (''exposure'',
          Detection [(''overexposed_ratio'', 0), (''underexposed_ratio'', 1 / 2)] True
            (Some ''underexposed''))]),
      [(''a.jpg'', ())])"
    by (simp add: check_photo_quality_def detect_blur_def detect_exposure_def
          detect_closed_eyes_def get_gray_image_def measured_def thresholds_def
          default_config_def append_defect_def Let_def)
  from check_photo_quality_defects [OF run] obtain b x c1 where
    "detect_blur (measured 10 0 (1 / 2)) thresholds [] ''a.jpg'' = (Inr b, c1)"
    "detect_exposure (measured 10 0 (1 / 2)) thresholds c1 ''a.jpg''
       = (Inr x, [(''a.jpg'', ())])"
    "detection.is_defective b \<or> detection.is_defective x
       \<or> detection.is_defective (detect_closed_eyes ''a.jpg'')"
    by auto
  with run show ?thesis by blast
qed

lemma get_gray_image_None:
  assumes "get_gray_image cv cfg cache p = (None, c1)"
  shows "c1 = cache"
proof (cases "map_of cache p")
  case None
  show ?thesis
  proof (cases "imread cv p")
    case (Inl e)
    with None assms show ?thesis by (simp add: get_gray_image_def)
  next
    case (Inr r)
    show ?thesis
    proof (cases r)
      case rn: None
      with None Inr assms show ?thesis by (simp add: get_gray_image_def)
    next
      case (Some img)
      with None Inr assms show ?thesis
        by (auto simp: get_gray_image_def Let_def split: prod.splits sum.splits)
    qed
  qed
next
  case (Some img)
  with assms show ?thesis by (simp add: get_gray_image_def)
qed

lemma process_batch_photos_paths:
  "map image_path (fst (process_batch_photos cv cfg cache ps)) = ps"
proof (induction ps arbitrary: cache)
  case Nil
  show ?case by simp
next
  case (Cons p ps)
  obtain checked c1 where chk: "check_photo_quality cv cfg cache p = (checked, c1)"
    by (cases "check_photo_quality cv cfg cache p")
  have own: "\<And>rep. checked = Inr rep \<Longrightarrow> image_path rep = p"
    using chk by (auto elim!: check_photo_quality_Inr)
  obtain rest c2 where rest: "process_batch_photos cv cfg c1 ps = (rest, c2)"
    by (cases "process_batch_photos cv cfg c1 ps")
  from Cons.IH [of c1] rest have "map image_path rest = ps" by simp
  with chk rest own show ?case
    by (cases checked) simp_all
qed

text \<open>
  C8, as amended.  For a path whose image cannot be read (\<open>_get_gray_image\<close> returns
  \<open>None\<close>), \<open>check_photo_quality\<close> does not raise, leaves the cache as it is and returns a
  report that is not defective and has no defect types; its details hold the three
  detectors' results, none defective, the blur and exposure ones without measurements.
  The batch worker produces one report per input path, in order, whatever the files are.
\<close>

theorem check_photo_quality_unreadable:
  assumes "fst (get_gray_image cv cfg cache p) = None"
  shows "check_photo_quality cv cfg cache p =
           (Inr (QualityReport p False []
                   [(''blur'', Detection [] False None),
                    (''eyes'', Detection [(''closed_eyes_count'', 0)] False None),
                    (''exposure'', Detection [] False None)]),
            cache)
         \<and> map image_path (fst (process_batch_photos cv cfg cache' ps)) = ps"
proof -
  from assms obtain c1 where "get_gray_image cv cfg cache p = (None, c1)"
    by (cases "get_gray_image cv cfg cache p") simp
  with get_gray_image_None [OF this] have g: "get_gray_image cv cfg cache p = (None, cache)"
    by simp
  have "check_photo_quality cv cfg cache p =
           (Inr (QualityReport p False []
                   [(''blur'', Detection [] False None),
                    (''eyes'', Detection [(''closed_eyes_count'', 0)] False None),
                    (''exposure'', Detection [] False None)]),
            cache)"
    by (simp add: check_photo_quality_def detect_blur_def detect_exposure_def g
          detect_closed_eyes_def append_defect_def)
  then show ?thesis
    by (simp add: process_batch_photos_paths)
qed

theorem check_photo_quality_unreadable_witness:
  "fst (get_gray_image unreadable default_config [] ''broken.jpg'') = None
   \<and> check_photo_quality unreadable default_config [] ''broken.jpg'' =
           (Inr (QualityReport ''broken.jpg'' False []
                   [(''blur'', Detection [] False None),
                    (''eyes'', Detection [(''closed_eyes_count'', 0)] False None),
                    (''exposure'', Detection [] False None)]),
            [])
   \<and> map image_path
         (fst (process_batch_photos unreadable default_config [] [''a.jpg'', ''broken.jpg'']))
       = [''a.jpg'', ''broken.jpg'']"
proof -
  have h: "fst (get_gray_image unreadable default_config [] ''broken.jpg'') = None"
    by (simp add: get_gray_image_def unreadable_def)
  from check_photo_quality_unreadable [OF h, of "[]" "[''a.jpg'', ''broken.jpg'']"] h
  show ?thesis by simp
qed

text \<open>
  C8 as stated fails: the report for an unreadable file has details that are not empty.
  The report with empty details is the one \<open>process_batch_photos\<close> builds when
  \<open>check_photo_quality\<close> raises.
\<close>

theorem check_photo_quality_unreadable_details:
  "fst (get_gray_image unreadable default_config [] ''broken.jpg'') = None
   \<and> fst (check_photo_quality unreadable default_config [] ''broken.jpg'') =
         Inr (QualityReport ''broken.jpg'' False []
                [(''blur'', Detection [] False None),
                 (''eyes'', Detection [(''closed_eyes_count'', 0)] False None),
                 (''exposure'', Detection [] False None)])
   \<and> details (QualityReport ''broken.jpg'' False []
                [(''blur'', Detection [] False None),
                 (''eyes'', Detection [(''closed_eyes_count'', 0)] False None),
                 (''exposure'', Detection [] False None)]) \<noteq> []"
  by (simp add: check_photo_quality_def detect_blur_def detect_exposure_def
        detect_closed_eyes_def get_gray_image_def unreadable_def append_defect_def)

subsection \<open>Indexing\<close>

lemma index_loop_gen:
  "\<exists>failed'.
     index_loop model fs k photo_paths (ids, embeddings, mds, n, failed, names) =
       (let W = first_per_filename
                  (filter (\<lambda>x. embeddable model fs (snd x)
                                \<and> os_path_basename (snd x) \<notin> names)
                     (enumerate k photo_paths))
        in (ids @ map (\<lambda>x. photo_id (fst x) (snd x)) W,
            embeddings @ map (\<lambda>x. the (get_image_embedding model fs (snd x))) W,
            mds @ map (\<lambda>x. photo_metadata (fst x) (snd x)) W,
            n + length W, failed',
            names \<union> (\<lambda>x. os_path_basename (snd x)) ` set W))"
proof (induction photo_paths arbitrary: k ids embeddings mds n failed names)
  case Nil
  show ?case by simp
next
  case (Cons p ps)
  let ?keep = "\<lambda>names x. embeddable model fs (snd x) \<and> os_path_basename (snd x) \<notin> names"
  consider (skip) "\<not> embeddable model fs p" | (dup) "embeddable model fs p" "os_path_basename p \<in> names"
    | (new) "embeddable model fs p" "os_path_basename p \<notin> names"
    by blast
  then show ?case
  proof cases
    case skip
    then have "\<exists>f. index_loop model fs k (p # ps) (ids, embeddings, mds, n, failed, names)
        = index_loop model fs (Suc k) ps (ids, embeddings, mds, n, f, names)"
      by (auto simp: embeddable_def Let_def split: option.splits)
    then obtain f where step: "index_loop model fs k (p # ps) (ids, embeddings, mds, n, failed, names)
        = index_loop model fs (Suc k) ps (ids, embeddings, mds, n, f, names)" ..
    have filt: "filter (?keep names) (enumerate k (p # ps)) = filter (?keep names) (enumerate (Suc k) ps)"
      using skip by simp
    from Cons.IH [of "Suc k" ids embeddings mds n f names] show ?thesis
      unfolding step filt .
  next
    case dup
    then have step: "index_loop model fs k (p # ps) (ids, embeddings, mds, n, failed, names)
        = index_loop model fs (Suc k) ps (ids, embeddings, mds, n, failed, names)"
      by (auto simp: embeddable_def Let_def split: option.splits)
    have filt: "filter (?keep names) (enumerate k (p # ps)) = filter (?keep names) (enumerate (Suc k) ps)"
      using dup by simp
    from Cons.IH [of "Suc k" ids embeddings mds n failed names] show ?thesis
      unfolding step filt .
  next
    case new
    then obtain e where e: "get_image_embedding model fs p = Some e" "e \<noteq> []" "\<not> near_zero e"
      and ex: "os_path_exists fs p"
      by (auto simp: embeddable_def split: option.splits)
    have step: "index_loop model fs k (p # ps) (ids, embeddings, mds, n, failed, names)
        = index_loop model fs (Suc k) ps
            (ids @ [photo_id k p], embeddings @ [e], mds @ [photo_metadata k p], n + 1, failed,
             insert (os_path_basename p) names)"
      using new e ex by (simp add: Let_def)
    have filt: "first_per_filename (filter (?keep names) (enumerate k (p # ps)))
        = (k, p) # first_per_filename
            (filter (?keep (insert (os_path_basename p) names)) (enumerate (Suc k) ps))"
      using new by (auto intro!: arg_cong [where f = first_per_filename] filter_cong)
    from Cons.IH [of "Suc k" "ids @ [photo_id k p]" "embeddings @ [e]"
        "mds @ [photo_metadata k p]" "n + 1" failed "insert (os_path_basename p) names"]
    show ?thesis
      unfolding step filt by (simp add: Let_def e)
  qed
qed



lemma index_loop_start:
  assumes "index_loop model fs 0 photo_paths ([], [], [], 0, 0, {})
             = (ids, embeddings, mds, indexed_count, failed_count, names)"
  defines "W \<equiv> first_per_filename
             (filter (\<lambda>x. embeddable model fs (snd x)) (enumerate 0 photo_paths))"
  shows "ids = map (\<lambda>x. photo_id (fst x) (snd x)) W"
    and "embeddings = map (\<lambda>x. the (get_image_embedding model fs (snd x))) W"
    and "mds = map (\<lambda>x. photo_metadata (fst x) (snd x)) W"
    and "indexed_count = length W"
  using index_loop_gen [of model fs 0 photo_paths "[]" "[]" "[]" 0 0 "{}"] assms
  by (auto simp: Let_def)


lemma not_available_not_embeddable:
  "\<not> clip_available model \<Longrightarrow> \<not> embeddable model fs p"
  by (simp add: embeddable_def get_image_embedding_def)

lemma index_photos_no_clear:
  assumes "index_loop model fs 0 photo_paths ([], [], [], 0, 0, {})
             = (ids, embeddings, mds, indexed_count, failed_count, names)"
  shows "index_photos model fs db photo_paths False s =
           (if ids = [] then (Inr 0, s)
            else case coll_add db (ids, embeddings, mds) s of
                   Inl e \<Rightarrow> (Inr 0, s)
                 | Inr s2 \<Rightarrow>
                     (case coll_count db s2 of
                        Inl e \<Rightarrow> (Inr 0, s2)
                      | Inr new_count \<Rightarrow> (Inr indexed_count, s2)))"
proof -
  note st = index_loop_start [OF assms]
  show ?thesis
  proof (cases "photo_paths = [] \<or> \<not> clip_available model")
    case True
    then have "ids = []"
      using st(1) by (auto simp: not_available_not_embeddable)
    with True show ?thesis by (auto simp: index_photos_def)
  next
    case False
    with assms st(1,4) show ?thesis
      by (auto simp: index_photos_def split: sum.splits)
  qed
qed



lemma near_zero_unit: "\<not> near_zero [1, 0]"
  by code_simp



lemma clear_collection_raises:
  assumes "fst (clear_collection db s) = Inl e"
  shows "\<exists>s'. get_or_create_collection db s' = Inl e"
  using assms
  by (auto simp: clear_collection_def Let_def split: sum.splits)

lemma index_photos_raises:
  assumes "fst (index_photos model fs db photo_paths clear s) = Inl e"
  shows "clear \<and> clip_available model \<and> photo_paths \<noteq> [] \<and>
         (coll_count db s = Inl e \<or> (\<exists>s'. get_or_create_collection db s' = Inl e))"
proof -
  obtain ids embeddings mds n failed names where
    loop: "index_loop model fs 0 photo_paths ([], [], [], 0, 0, {})
             = (ids, embeddings, mds, n, failed, names)"
    by (metis prod_cases6)
  have clear
  proof (rule ccontr)
    assume "\<not> clear"
    with assms show False
      by (auto simp: index_photos_no_clear [OF loop] split: sum.splits if_splits)
  qed
  moreover have "clip_available model" "photo_paths \<noteq> []"
    using assms by (auto simp: index_photos_def split: if_splits)
  moreover have "coll_count db s = Inl e \<or> (\<exists>s'. get_or_create_collection db s' = Inl e)"
  proof (cases "coll_count db s")
    case (Inl e')
    with assms \<open>clear\<close> \<open>clip_available model\<close> \<open>photo_paths \<noteq> []\<close>
    show ?thesis by (simp add: index_photos_def)
  next
    case (Inr k)
    show ?thesis
    proof (cases "0 < k")
      case False
      with Inr assms \<open>clear\<close> \<open>clip_available model\<close> \<open>photo_paths \<noteq> []\<close> loop
      have False by (auto simp: index_photos_def split: sum.splits if_splits)
      then show ?thesis ..
    next
      case True
      obtain r s1 where cl: "clear_collection db s = (r, s1)"
        by (cases "clear_collection db s")
      with True Inr assms \<open>clear\<close> \<open>clip_available model\<close> \<open>photo_paths \<noteq> []\<close> loop
      have "r = Inl e"
        by (cases r) (auto simp: index_photos_def split: sum.splits if_splits)
      with cl clear_collection_raises [of db s e] show ?thesis by simp
    qed
  qed
  ultimately show ?thesis by blast
qed





subsection \<open>The scanner\<close>

text \<open>
  C4 at a folder holding \<open>b.jpg\<close> and \<open>a.Jpg\<close>: the mixed-case name is not returned.  The
  extension list holds the lower-case and the upper-case spelling of each extension and
  nothing between.
\<close>

theorem get_image_files_mixed_case:
  "get_image_files (photos_folder [''b.jpg'', ''a.Jpg'']) ''/photos'' = [''/photos/b.jpg'']"
  by code_simp

subsection \<open>The run of a job\<close>

lemma job_update_progress:
  "map progress (job_update f h) = map progress h @ [progress (f (last h))]"
  by (simp add: job_update_def)

lemma process_batch_photos_mset:
  "mset (map image_path (fst (process_batch_photos cv cfg cache ps))) = mset ps"
  by (simp add: process_batch_photos_paths)

lemma run_futures_paths:
  "map image_path (concat (fst (run_futures cv cfg cache bs))) = concat bs"
proof (induction bs arbitrary: cache)
  case Nil
  show ?case by simp
next
  case (Cons b bs)
  obtain r c1 where r: "process_batch_photos cv cfg cache b = (r, c1)"
    by (cases "process_batch_photos cv cfg cache b")
  obtain fs c2 where fs: "run_futures cv cfg c1 bs = (fs, c2)"
    by (cases "run_futures cv cfg c1 bs")
  from process_batch_photos_paths [of cv cfg cache b] r have "map image_path r = b" by simp
  moreover from Cons.IH [of c1] fs have "map image_path (concat fs) = concat bs" by simp
  ultimately show ?case using r fs by simp
qed

lemma concat_sub_batches: "0 < k \<Longrightarrow> concat (sub_batches k xs) = xs"
proof (induction k xs rule: sub_batches.induct)
  case (1 k xs)
  show ?case
  proof (cases "xs = []")
    case True
    then show ?thesis by (simp add: sub_batches.simps [of k "[]"])
  next
    case False
    with 1 have "concat (sub_batches k (drop k xs)) = drop k xs" by simp
    with False 1(2) show ?thesis
      by (subst sub_batches.simps) simp
  qed
qed

lemma mset_as_completed: "mset (as_completed t fs) = mset fs"
proof -
  have zip: "map snd (zip (map t [0..<length fs]) fs) = fs"
    by (rule map_snd_zip) simp
  have "mset (as_completed t fs) = image_mset snd (mset (zip (map t [0..<length fs]) fs))"
    by (simp add: as_completed_def)
  also have "\<dots> = mset (map snd (zip (map t [0..<length fs]) fs))"
    by (simp only: mset_map)
  finally show ?thesis by (simp only: zip)
qed

lemma mset_concat_sum: "mset (concat xss) = (\<Sum>xs\<in>#mset xss. mset xs)"
  by (induction xss) simp_all

lemma mset_concat_as_completed:
  "mset (concat (as_completed t fs)) = mset (concat fs)"
  by (simp only: mset_concat_sum mset_as_completed)


lemma screening_loop_step:
  assumes "0 < MAX_WORKERS (conf d)" "photo_paths \<noteq> []"
  shows "screening_loop d photo_paths (i # rest) (h, qs, c) =
           screening_loop d photo_paths rest
             (job_update
                (\<lambda>j. j\<lparr>status := Processing,
                       progress :=
                         py_int (float_mul
                           (to_double
                              (of_int (min (i + BATCH_SIZE (conf d)) (int (length photo_paths)))
                                 / of_int (int (length photo_paths))))
                           100),
                       current := min (i + BATCH_SIZE (conf d)) (int (length photo_paths)),
                       message :=
                         ProcessingPhotos
                           (min (i + BATCH_SIZE (conf d)) (int (length photo_paths)))
                           (int (length photo_paths))\<rparr>)
                h,
              qs @ concat
                     (as_completed (finish_time d i)
                        (fst (run_futures (opencv d) (conf d) c
                                (sub_batches
                                   (nat (max 1 (BATCH_SIZE (conf d) div MAX_WORKERS (conf d))))
                                   (slice photo_paths i (i + BATCH_SIZE (conf d))))))),
              snd (run_futures (opencv d) (conf d) c
                     (sub_batches
                        (nat (max 1 (BATCH_SIZE (conf d) div MAX_WORKERS (conf d))))
                        (slice photo_paths i (i + BATCH_SIZE (conf d))))))"
  using assms
  by (simp add: int_truediv_def Let_def case_prod_beta)

lemma screening_loop_stops:
  assumes "\<not> (0 < MAX_WORKERS (conf d) \<and> photo_paths \<noteq> [])"
  shows "fst (screening_loop d photo_paths (i # rest) (h, qs, c)) \<noteq> None"
  using assms
  by (auto simp: int_truediv_def Let_def case_prod_beta)



lemma screening_loop_None:
  assumes "screening_loop d photo_paths starts (h, qs, c) = (None, h', qr, c')"
  shows "\<exists>us. h' = h @ us
           \<and> map progress us =
               map (\<lambda>i. py_int (float_mul
                           (to_double
                              (of_int (min (i + BATCH_SIZE (conf d)) (int (length photo_paths)))
                                 / of_int (int (length photo_paths))))
                           100)) starts
           \<and> (\<forall>j \<in> set us. status j = Processing)
           \<and> mset (map image_path qr) =
               mset (map image_path qs)
               + mset (concat (map (\<lambda>i. slice photo_paths i (i + BATCH_SIZE (conf d))) starts))"
  using assms
proof (induction starts arbitrary: h qs c)
  case Nil
  then show ?case by simp
next
  case (Cons i rest)
  have ok: "0 < MAX_WORKERS (conf d)" "photo_paths \<noteq> []"
    using screening_loop_stops [of d photo_paths i rest h qs c] Cons.prems by auto
  define pct where "pct = (\<lambda>i. py_int (float_mul
                           (to_double
                              (of_int (min (i + BATCH_SIZE (conf d)) (int (length photo_paths)))
                                 / of_int (int (length photo_paths))))
                           100))"
  define f :: "job \<Rightarrow> job" where "f = (\<lambda>j. j\<lparr>status := Processing,
                       progress := pct i,
                       current := min (i + BATCH_SIZE (conf d)) (int (length photo_paths)),
                       message :=
                         ProcessingPhotos
                           (min (i + BATCH_SIZE (conf d)) (int (length photo_paths)))
                           (int (length photo_paths))\<rparr>)"
  define subs where "subs = sub_batches (nat (max 1 (BATCH_SIZE (conf d) div MAX_WORKERS (conf d))))
                 (slice photo_paths i (i + BATCH_SIZE (conf d)))"
  define fut where "fut = fst (run_futures (opencv d) (conf d) c subs)"
  define new where "new = concat (as_completed (finish_time d i) fut)"
  define c1 where "c1 = snd (run_futures (opencv d) (conf d) c subs)"
  have paths: "mset (map image_path new) = mset (slice photo_paths i (i + BATCH_SIZE (conf d)))"
  proof -
    have "mset (map image_path new) = image_mset image_path (mset (concat fut))"
      unfolding new_def by (simp only: mset_map mset_concat_as_completed)
    also have "\<dots> = mset (map image_path (concat fut))" by (simp only: mset_map)
    also have "\<dots> = mset (concat subs)" unfolding fut_def by (simp only: run_futures_paths)
    also have "\<dots> = mset (slice photo_paths i (i + BATCH_SIZE (conf d)))"
      unfolding subs_def by (subst concat_sub_batches) simp_all
    finally show ?thesis .
  qed
  have step: "screening_loop d photo_paths (i # rest) (h, qs, c) =
           screening_loop d photo_paths rest (job_update f h, qs @ new, c1)"
    unfolding f_def pct_def new_def fut_def subs_def c1_def
    by (rule screening_loop_step [OF ok])
  with Cons.prems have "screening_loop d photo_paths rest (job_update f h, qs @ new, c1)
      = (None, h', qr, c')" by simp
  from Cons.IH [OF this] obtain us where
    us: "h' = job_update f h @ us"
      "map progress us = map pct rest"
      "\<forall>j \<in> set us. status j = Processing"
      "mset (map image_path qr) =
               mset (map image_path (qs @ new))
               + mset (concat (map (\<lambda>i. slice photo_paths i (i + BATCH_SIZE (conf d))) rest))"
    unfolding pct_def by blast
  have 1: "h' = h @ (f (last h) # us)"
    using us(1) by (simp add: job_update_def)
  have 2: "map progress (f (last h) # us) = map pct (i # rest)"
    using us(2) by (simp add: f_def)
  have 3: "\<forall>j \<in> set (f (last h) # us). status j = Processing"
    using us(3) by (simp add: f_def)
  have 4: "mset (map image_path qr) =
               mset (map image_path qs)
               + mset (concat (map (\<lambda>i. slice photo_paths i (i + BATCH_SIZE (conf d))) (i # rest)))"
    using us(4) paths by simp
  from 1 2 3 4 show ?case unfolding pct_def by blast
qed

lemma last_job_update: "last (job_update f h) = f (last h)"
  by (simp add: job_update_def)

lemma concat_slices:
  assumes "0 < bs"
  shows "concat (map (\<lambda>k. slice xs (int k * bs) (int k * bs + bs)) [0..<m])
           = take (m * nat bs) xs"
proof (induction m)
  case 0
  show ?case by simp
next
  case (Suc m)
  have "nat (int m * bs) = m * nat bs"
    using assms by (simp add: nat_mult_distrib)
  then have sl: "slice xs (int m * bs) (int m * bs + bs) = take (nat bs) (drop (m * nat bs) xs)"
    by (simp add: slice_def)
  have "take (Suc m * nat bs) xs = take (m * nat bs + nat bs) xs"
    by (simp add: add.commute)
  also have "\<dots> = take (m * nat bs) xs @ take (nat bs) (drop (m * nat bs) xs)"
    by (simp only: take_add)
  finally have "take (Suc m * nat bs) xs
      = take (m * nat bs) xs @ take (nat bs) (drop (m * nat bs) xs)" .
  moreover have "concat (map (\<lambda>k. slice xs (int k * bs) (int k * bs + bs)) [0..<Suc m])
      = concat (map (\<lambda>k. slice xs (int k * bs) (int k * bs + bs)) [0..<m])
        @ slice xs (int m * bs) (int m * bs + bs)"
    by simp
  ultimately show ?case
    by (simp only: Suc sl)
qed

lemma py_range_slices:
  assumes "0 < bs" "py_range (int (length xs)) bs = Inr starts"
  shows "concat (map (\<lambda>i. slice xs i (i + bs)) starts) = xs"
proof (cases "xs = []")
  case True
  with assms show ?thesis by (simp add: py_range_def)
next
  case False
  define m where "m = nat ((int (length xs) + bs - 1) div bs)"
  from False assms have starts: "starts = map (\<lambda>k. int k * bs) [0..<m]"
    by (auto simp: py_range_def m_def)
  have "int (length xs) \<le> ((int (length xs) + bs - 1) div bs) * bs"
  proof -
    have "(int (length xs) + bs - 1) mod bs < bs"
      using assms(1) by simp
    moreover have "(int (length xs) + bs - 1) div bs * bs + (int (length xs) + bs - 1) mod bs
        = int (length xs) + bs - 1"
      by simp
    ultimately show ?thesis by linarith
  qed
  moreover have "0 \<le> (int (length xs) + bs - 1) div bs"
    using assms(1) by (simp add: pos_imp_zdiv_nonneg_iff)
  ultimately have "int (length xs) \<le> int (m * nat bs)"
    using assms(1) by (simp add: m_def)
  then have len: "length xs \<le> m * nat bs" by linarith
  have "concat (map (\<lambda>i. slice xs i (i + bs)) starts)
      = concat (map (\<lambda>k. slice xs (int k * bs) (int k * bs + bs)) [0..<m])"
    unfolding starts by (simp add: comp_def)
  also have "\<dots> = take (m * nat bs) xs"
    by (rule concat_slices [OF assms(1)])
  also have "\<dots> = xs" using len by simp
  finally show ?thesis .
qed


lemma screening_loop_runs:
  assumes "0 < MAX_WORKERS (conf d)" "photo_paths \<noteq> []"
  shows "fst (screening_loop d photo_paths starts (h, qs, c)) = None"
proof (induction starts arbitrary: h qs c)
  case Nil
  show ?case by simp
next
  case (Cons i rest)
  show ?case
    unfolding screening_loop_step [OF assms] by (rule Cons.IH)
qed

lemma process_batch_photos_all:
  assumes "\<And>c p r. fst (check_photo_quality cv cfg c p) = Inr r \<Longrightarrow> P r"
    and "\<And>p. P (QualityReport p False [] [])"
  shows "\<forall>r \<in> set (fst (process_batch_photos cv cfg cache ps)). P r"
proof (induction ps arbitrary: cache)
  case Nil
  show ?case by simp
next
  case (Cons p ps)
  obtain checked c1 where chk: "check_photo_quality cv cfg cache p = (checked, c1)"
    by (cases "check_photo_quality cv cfg cache p")
  obtain rest c2 where rest: "process_batch_photos cv cfg c1 ps = (rest, c2)"
    by (cases "process_batch_photos cv cfg c1 ps")
  from Cons.IH [of c1] rest have "\<forall>r \<in> set rest. P r" by simp
  moreover have "P (case checked of Inr rep \<Rightarrow> rep | Inl e \<Rightarrow> QualityReport p False [] [])"
    using assms(1) [of cache p] assms(2) [of p] chk by (cases checked) simp_all
  ultimately show ?case using chk rest by simp
qed

lemma run_futures_all:
  assumes "\<And>c ps. \<forall>r \<in> set (fst (process_batch_photos cv cfg c ps)). P r"
  shows "\<forall>r \<in> set (concat (fst (run_futures cv cfg cache bs))). P r"
proof (induction bs arbitrary: cache)
  case Nil
  show ?case by simp
next
  case (Cons b bs)
  obtain r c1 where r: "process_batch_photos cv cfg cache b = (r, c1)"
    by (cases "process_batch_photos cv cfg cache b")
  obtain fs c2 where fs: "run_futures cv cfg c1 bs = (fs, c2)"
    by (cases "run_futures cv cfg c1 bs")
  from assms [of cache b] r have "\<forall>x \<in> set r. P x" by simp
  moreover from Cons.IH [of c1] fs have "\<forall>x \<in> set (concat fs). P x" by simp
  ultimately show ?case using r fs by auto
qed

lemma set_concat_as_completed: "set (concat (as_completed t fs)) = set (concat fs)"
  by (metis mset_concat_as_completed set_mset_mset)

lemma screening_loop_all:
  assumes "\<And>c ps. \<forall>r \<in> set (fst (process_batch_photos (opencv d) (conf d) c ps)). P r"
    and "0 < MAX_WORKERS (conf d)" "photo_paths \<noteq> []"
    and "\<forall>r \<in> set qs. P r"
  shows "\<forall>r \<in> set (fst (snd (snd (screening_loop d photo_paths starts (h, qs, c))))). P r"
  using assms(4)
proof (induction starts arbitrary: h qs c)
  case Nil
  then show ?case by simp
next
  case (Cons i rest)
  show ?case
    unfolding screening_loop_step [OF assms(2,3)]
  proof (rule Cons.IH)
    show "\<forall>r\<in>set (qs @ concat (as_completed (finish_time d i)
            (fst (run_futures (opencv d) (conf d) c
               (sub_batches (nat (max 1 (BATCH_SIZE (conf d) div MAX_WORKERS (conf d))))
                  (slice photo_paths i (i + BATCH_SIZE (conf d)))))))). P r"
      using Cons.prems run_futures_all [of "opencv d" "conf d" P, OF assms(1)]
      by (auto simp only: set_append set_concat_as_completed Un_iff)
  qed
qed

lemma indexing_loop_runs:
  assumes no_raise:
      "\<And>b c s e. fst (index_photos (clip_model d) (files d) (chroma_db d) b c s) \<noteq> Inl e"
    and "qualified \<noteq> []"
  shows "\<exists>us k s'.
           indexing_loop d qualified starts (h, n, s) = (None, h @ us, k, s')
         \<and> map progress us =
             map (\<lambda>i. 70 + py_int (float_mul
                    (to_double
                       (of_int (i + int (length (slice qualified i
                                                   (i + SEARCH_BATCH_SIZE (conf d)))))
                          / of_int (int (length qualified))))
                    30)) starts
         \<and> (\<forall>j \<in> set us. status j = status (last h))"
proof (induction starts arbitrary: h n s)
  case Nil
  show ?case by simp
next
  case (Cons i rest)
  define ipct where "ipct = (\<lambda>i. 70 + py_int (float_mul
                    (to_double
                       (of_int (i + int (length (slice qualified i
                                                   (i + SEARCH_BATCH_SIZE (conf d)))))
                          / of_int (int (length qualified))))
                    30))"
  define f :: "job \<Rightarrow> job" where
    "f = (\<lambda>j. j\<lparr>progress := ipct i,
                  message := IndexProgress
                     (min (i + SEARCH_BATCH_SIZE (conf d)) (int (length qualified)))
                     (int (length qualified))\<rparr>)"
  obtain r s1 where ip: "index_photos (clip_model d) (files d) (chroma_db d)
      (slice qualified i (i + SEARCH_BATCH_SIZE (conf d))) (i = 0) s = (r, s1)"
    by (cases "index_photos (clip_model d) (files d) (chroma_db d)
      (slice qualified i (i + SEARCH_BATCH_SIZE (conf d))) (i = 0) s")
  with no_raise [of "slice qualified i (i + SEARCH_BATCH_SIZE (conf d))" "i = 0" s]
  obtain indexed where r: "r = Inr indexed" by (cases r) auto
  have step: "indexing_loop d qualified (i # rest) (h, n, s)
      = indexing_loop d qualified rest (job_update f h, n + indexed, s1)"
    using ip r assms(2) by (simp add: Let_def int_truediv_def f_def ipct_def)
  from Cons.IH [of "job_update f h" "n + indexed" s1] obtain us k s' where
    us: "indexing_loop d qualified rest (job_update f h, n + indexed, s1)
           = (None, job_update f h @ us, k, s')"
      "map progress us = map ipct rest"
      "\<forall>j \<in> set us. status j = status (last (job_update f h))"
    unfolding ipct_def by blast
  have 1: "indexing_loop d qualified (i # rest) (h, n, s) = (None, h @ (f (last h) # us), k, s')"
    using step us(1) by (simp add: job_update_def)
  have 2: "map progress (f (last h) # us) = map ipct (i # rest)"
    using us(2) by (simp add: f_def)
  have 3: "\<forall>j \<in> set (f (last h) # us). status j = status (last h)"
    using us(3) by (simp add: f_def job_update_def)
  from 1 2 3 show ?case unfolding ipct_def by blast
qed

lemma py_range_pos: "0 < step \<Longrightarrow> \<exists>starts. py_range stop step = Inr starts"
  by (simp add: py_range_def)

lemma background_processing_runs:
  assumes workers: "0 < MAX_WORKERS (conf d)"
    and bs: "py_range (int (length (get_image_files (files d) folder_path)))
               (BATCH_SIZE (conf d)) = Inr starts"
    and sbs: "0 < SEARCH_BATCH_SIZE (conf d)"
    and no_raise:
      "\<And>b c s e. fst (index_photos (clip_model d) (files d) (chroma_db d) b c s) \<noteq> Inl e"
    and photos: "get_image_files (files d) folder_path \<noteq> []"
    and P: "\<And>c ps. \<forall>r \<in> set (fst (process_batch_photos (opencv d) (conf d) c ps)). P r"
  shows "\<exists>qr starts'.
      mset (map image_path qr) =
        mset (concat (map (\<lambda>i. slice (get_image_files (files d) folder_path) i
                                  (i + BATCH_SIZE (conf d))) starts))
    \<and> (\<forall>r \<in> set qr. P r)
    \<and> py_range (int (length (filter (\<lambda>r. \<not> quality_report.is_defective r) qr)))
         (SEARCH_BATCH_SIZE (conf d)) = Inr starts'
    \<and> map progress (history (background_processing d folder_path created cache s)) =
        [progress created, 0, 0]
        @ map (\<lambda>i. py_int (float_mul
                 (to_double
                    (of_int (min (i + BATCH_SIZE (conf d))
                               (int (length (get_image_files (files d) folder_path))))
                       / of_int (int (length (get_image_files (files d) folder_path)))))
                 100)) starts
        @ (if filter (\<lambda>r. \<not> quality_report.is_defective r) qr = [] then []
           else last (0 # map (\<lambda>i. py_int (float_mul
                 (to_double
                    (of_int (min (i + BATCH_SIZE (conf d))
                               (int (length (get_image_files (files d) folder_path))))
                       / of_int (int (length (get_image_files (files d) folder_path)))))
                 100)) starts)
                # map (\<lambda>i. 70 + py_int (float_mul
                    (to_double
                       (of_int (i + int (length (slice
                             (map image_path (filter (\<lambda>r. \<not> quality_report.is_defective r) qr))
                             i (i + SEARCH_BATCH_SIZE (conf d)))))
                          / of_int (int (length (filter (\<lambda>r. \<not> quality_report.is_defective r) qr)))))
                    30)) starts')
        @ [100]
    \<and> status (last (history (background_processing d folder_path created cache s))) = Completed"
proof -
  let ?ps = "get_image_files (files d) folder_path"
  let ?n = "int (length ?ps)"
  let ?h0 = "job_update
                 (\<lambda>j. j\<lparr>status := Initializing, progress := 0, message := ScanningFolder\<rparr>)
                 [created]"
  let ?h1 = "job_update (\<lambda>j. j\<lparr>total := ?n, message := FoundPhotos ?n\<rparr>) ?h0"
  let ?pct = "\<lambda>i. py_int (float_mul
                 (to_double (of_int (min (i + BATCH_SIZE (conf d)) ?n) / of_int ?n)) 100)"
  have n0: "?n \<noteq> 0" using photos by simp
  have h1: "map progress ?h1 = [progress created, 0, 0]"
    by (simp add: job_update_def)
  obtain x h2 qr c' where scr0: "screening_loop d ?ps starts (?h1, [], cache) = (x, h2, qr, c')"
    by (metis prod_cases4)
  with screening_loop_runs [OF workers photos, of starts ?h1 "[]" cache]
  have scr: "screening_loop d ?ps starts (?h1, [], cache) = (None, h2, qr, c')"
    by simp
  from screening_loop_None [OF scr] obtain us where
    us: "h2 = ?h1 @ us" "map progress us = map ?pct starts"
      "mset (map image_path qr) =
        mset (concat (map (\<lambda>i. slice ?ps i (i + BATCH_SIZE (conf d))) starts))"
    by auto
  have allP: "\<forall>r \<in> set qr. P r"
    using screening_loop_all [of d P ?ps "[]" starts ?h1 cache, OF P workers photos] scr
    by simp
  let ?q = "map image_path (filter (\<lambda>r. \<not> quality_report.is_defective r) qr)"
  from py_range_pos [OF sbs] obtain starts' where
    pr': "py_range (int (length ?q)) (SEARCH_BATCH_SIZE (conf d)) = Inr starts'"
    by blast
  have lasth2: "progress (last h2) = last (0 # map ?pct starts)"
  proof -
    have "h2 \<noteq> []" using us(1) by (simp add: job_update_def)
    then have "progress (last h2) = last (map progress h2)" by (simp add: last_map)
    also have "map progress h2 = [progress created, 0, 0] @ map ?pct starts"
      using us(1,2) h1 by simp
    also have "last ([progress created, 0, 0] @ map ?pct starts) = last (0 # map ?pct starts)"
      by simp
    finally show ?thesis .
  qed
  have hist: "map progress (history (background_processing d folder_path created cache s)) =
        [progress created, 0, 0] @ map ?pct starts
        @ (if ?q = [] then []
           else last (0 # map ?pct starts)
                # map (\<lambda>i. 70 + py_int (float_mul
                    (to_double
                       (of_int (i + int (length (slice ?q i (i + SEARCH_BATCH_SIZE (conf d)))))
                          / of_int (int (length ?q))))
                    30)) starts')
        @ [100]
      \<and> status (last (history (background_processing d folder_path created cache s))) = Completed"
  proof (cases "?q = []")
    case True
    then show ?thesis
      using n0 bs scr us(1,2) h1
      by (simp add: background_processing_def Let_def job_update_progress last_job_update)
  next
    case False
    let ?h3 = "job_update (\<lambda>j. j\<lparr>message := BuildingIndex (length ?q)\<rparr>) h2"
    from indexing_loop_runs [of d ?q starts' ?h3 0 s, OF no_raise False]
    obtain us' k s' where
      idx: "indexing_loop d ?q starts' (?h3, 0, s) = (None, ?h3 @ us', k, s')"
        "map progress us' =
             map (\<lambda>i. 70 + py_int (float_mul
                    (to_double
                       (of_int (i + int (length (slice ?q i (i + SEARCH_BATCH_SIZE (conf d)))))
                          / of_int (int (length ?q))))
                    30)) starts'"
      by blast
    have h3: "map progress ?h3 = [progress created, 0, 0] @ map ?pct starts
        @ [last (0 # map ?pct starts)]"
      using us(1,2) h1 lasth2 by (simp add: job_update_progress)
    show ?thesis
      using False n0 bs scr pr' idx h3
      by (simp add: background_processing_def Let_def job_update_progress last_job_update)
  qed
  from us(3) allP pr' hist show ?thesis
    by (intro exI [where x = qr] exI [where x = starts']) simp
qed

lemma studio_simps:
  "opencv (studio n) = measured 100 0 0"
  "clip_model (studio n) = constant_clip"
  "files (studio n) = photos_folder (photo_names n)"
  "chroma_db (studio n) = list_store"
  "conf (studio n) = default_config"
  by (simp_all add: studio_def)

lemma default_config_simps:
  "MAX_WORKERS default_config = 2"
  "BATCH_SIZE default_config = 10"
  "SEARCH_BATCH_SIZE default_config = 25"
  by (simp_all add: default_config_def)

lemma list_store_no_raise: "fst (index_photos m fs list_store b c s) \<noteq> Inl e"
  using index_photos_raises [of m fs list_store b c s e]
  by (auto simp: list_store_def)

lemma default_thresholds:
  "\<not> to_double (95 / 100) < 0" "\<not> to_double (5 / 100) < 0"
  by code_simp+

lemma measured_sharp:
  assumes "fst (check_photo_quality (measured 100 0 0) default_config c p) = Inr r"
  shows "\<not> quality_report.is_defective r"
proof -
  obtain c' where "check_photo_quality (measured 100 0 0) default_config c p = (Inr r, c')"
    using assms by (cases "check_photo_quality (measured 100 0 0) default_config c p") simp
  then obtain b x c1 where
    b: "detect_blur (measured 100 0 0) default_config c p = (Inr b, c1)" and
    x: "detect_exposure (measured 100 0 0) default_config c1 p = (Inr x, c')" and
    r: "r = QualityReport p
         (detection.is_defective b \<or> detection.is_defective (detect_closed_eyes p)
            \<or> detection.is_defective x)
         (append_defect (append_defect (append_defect [] b) (detect_closed_eyes p)) x)
         [(''blur'', b), (''eyes'', detect_closed_eyes p), (''exposure'', x)]"
    by (rule check_photo_quality_Inr)
  have "\<not> detection.is_defective b"
    using b
    by (cases "get_gray_image (measured 100 0 0) default_config c p")
       (auto simp: detect_blur_def measured_def default_config_def split: option.splits)
  moreover have "\<not> detection.is_defective x"
    using x default_thresholds
    by (cases "get_gray_image (measured 100 0 0) default_config c1 p")
       (auto simp: detect_exposure_def measured_def default_config_def split: option.splits)
  ultimately show ?thesis
    by (simp add: r detect_closed_eyes_def)
qed

lemma studio_reports:
  "\<forall>r \<in> set (fst (process_batch_photos (opencv (studio n)) (conf (studio n)) c ps)).
     \<not> quality_report.is_defective r"
  unfolding studio_simps
  by (rule process_batch_photos_all) (simp_all add: measured_sharp)

lemma length_slice: "length (slice xs a b) = min (nat (b - a)) (length xs - nat a)"
  by (simp add: slice_def)

lemma py_range_pos_eq:
  "0 < step \<Longrightarrow> 0 < stop \<Longrightarrow>
   py_range stop step = Inr (map (\<lambda>k. int k * step) [0..<nat ((stop + step - 1) div step)])"
  by (simp add: py_range_def)

lemma studio_run:
  assumes len: "length (get_image_files (photos_folder (photo_names n)) ''/photos'') = m"
    and pos: "0 < m"
  shows "map progress (history (background_processing (studio n) ''/photos'' created cache s)) =
        [progress created, 0, 0]
        @ map (\<lambda>i. py_int (float_mul
                 (to_double (of_int (min (i + 10) (int m)) / of_int (int m))) 100))
            (map (\<lambda>k. int k * 10) [0..<nat ((int m + 10 - 1) div 10)])
        @ (last (0 # map (\<lambda>i. py_int (float_mul
                 (to_double (of_int (min (i + 10) (int m)) / of_int (int m))) 100))
               (map (\<lambda>k. int k * 10) [0..<nat ((int m + 10 - 1) div 10)]))
           # map (\<lambda>i. 70 + py_int (float_mul
                    (to_double
                       (of_int (i + int (min (nat (i + 25 - i)) (m - nat i)))
                          / of_int (int m)))
                    30))
               (map (\<lambda>k. int k * 25) [0..<nat ((int m + 25 - 1) div 25)]))
        @ [100]
    \<and> status (last (history (background_processing (studio n) ''/photos'' created cache s)))
        = Completed"
proof -
  let ?d = "studio n"
  let ?ps = "get_image_files (files ?d) ''/photos''"
  let ?starts = "map (\<lambda>k. int k * 10) [0..<nat ((int m + 10 - 1) div 10)]"
  have lenps: "length ?ps = m" using len by (simp add: studio_simps)
  have ne: "?ps \<noteq> []" using lenps pos by auto
  have pr: "py_range (int (length ?ps)) (BATCH_SIZE (conf ?d)) = Inr ?starts"
    unfolding studio_simps default_config_simps len
    using pos by (intro py_range_pos_eq) simp_all
  have workers: "0 < MAX_WORKERS (conf ?d)" and sbs: "0 < SEARCH_BATCH_SIZE (conf ?d)"
    by (simp_all add: studio_simps default_config_simps)
  have nr: "\<And>b c s e. fst (index_photos (clip_model ?d) (files ?d) (chroma_db ?d) b c s) \<noteq> Inl e"
    unfolding studio_simps by (rule list_store_no_raise)
  from background_processing_runs [of ?d "''/photos''" ?starts
      "\<lambda>r. \<not> quality_report.is_defective r" created cache s,
      OF workers pr sbs nr ne studio_reports]
  obtain qr starts' where
    ms: "mset (map image_path qr) =
        mset (concat (map (\<lambda>i. slice ?ps i (i + BATCH_SIZE (conf ?d))) ?starts))" and
    good: "\<forall>r \<in> set qr. \<not> quality_report.is_defective r" and
    pr': "py_range (int (length (filter (\<lambda>r. \<not> quality_report.is_defective r) qr)))
         (SEARCH_BATCH_SIZE (conf ?d)) = Inr starts'" and
    hist: "map progress (history (background_processing ?d ''/photos'' created cache s)) =
        [progress created, 0, 0]
        @ map (\<lambda>i. py_int (float_mul
                 (to_double
                    (of_int (min (i + BATCH_SIZE (conf ?d)) (int (length ?ps)))
                       / of_int (int (length ?ps))))
                 100)) ?starts
        @ (if filter (\<lambda>r. \<not> quality_report.is_defective r) qr = [] then []
           else last (0 # map (\<lambda>i. py_int (float_mul
                 (to_double
                    (of_int (min (i + BATCH_SIZE (conf ?d)) (int (length ?ps)))
                       / of_int (int (length ?ps))))
                 100)) ?starts)
                # map (\<lambda>i. 70 + py_int (float_mul
                    (to_double
                       (of_int (i + int (length (slice
                             (map image_path (filter (\<lambda>r. \<not> quality_report.is_defective r) qr))
                             i (i + SEARCH_BATCH_SIZE (conf ?d)))))
                          / of_int (int (length (filter (\<lambda>r. \<not> quality_report.is_defective r) qr)))))
                    30)) starts')
        @ [100]" and
    fin: "status (last (history (background_processing ?d ''/photos'' created cache s))) = Completed"
    by blast
  have filt: "filter (\<lambda>r. \<not> quality_report.is_defective r) qr = qr"
    using good by (simp add: filter_id_conv)
  have "concat (map (\<lambda>i. slice ?ps i (i + BATCH_SIZE (conf ?d))) ?starts) = ?ps"
    using pr by (intro py_range_slices) (simp_all add: studio_simps default_config_simps)
  with ms have "size (mset (map image_path qr)) = size (mset ?ps)" by simp
  then have lenqr: "length qr = m" using lenps by simp
  have qne: "qr \<noteq> []" using lenqr pos by auto
  have starts': "starts' = map (\<lambda>k. int k * 25) [0..<nat ((int m + 25 - 1) div 25)]"
    using pr' pos py_range_pos_eq [of 25 "int m"]
    by (simp add: filt lenqr studio_simps default_config_simps)
  show ?thesis
    using hist fin qne
    by (simp only: filt lenqr len starts' studio_simps default_config_simps length_slice
          length_map if_False simp_thms)
qed

lemma studio_files_26:
  "length (get_image_files (photos_folder (photo_names 26)) ''/photos'') = 26"
  by code_simp

lemma created_progress: "progress (created_job tid) = 0"
  by (simp add: created_job_def)

text \<open>
  C1 at a folder of 26 good photos under the default configuration (batches of 10,
  indexing chunks of 25).  The progress written by the successive updates is 0 at
  creation, at the start and after the scan; 38, 76 and 100 in the three screening
  batches; 100 when indexing is announced; 98 and 100 in the two indexing chunks; 100 at
  completion.  It decreases from 100 to 98.
\<close>

theorem progress_decreases:
  "map progress (history (background_processing (studio 26) ''/photos'' (created_job ''1'') [] []))
     = [0, 0, 0, 38, 76, 100, 100, 98, 100, 100]
   \<and> \<not> sorted (map progress
          (history (background_processing (studio 26) ''/photos'' (created_job ''1'') [] [])))"
proof -
  have "map progress
          (history (background_processing (studio 26) ''/photos'' (created_job ''1'') [] []))
        = [0, 0, 0, 38, 76, 100, 100, 98, 100, 100]"
    apply (simp only: conjunct1 [OF studio_run [OF studio_files_26]] created_progress)
    apply code_simp
    done
  then show ?thesis by simp
qed

text \<open>
  C2 at a folder of one photo under the default configuration: the update of the only
  screening batch writes progress 100, not a value capped at 70.  (The indexing pass
  starts from 70, as \<open>indexing_loop\<close> shows.)
\<close>

theorem screening_progress_reaches_100:
  "map progress
     (fst (snd (screening_loop (studio 1) [''/photos/p0.jpg''] [0]
                  ([created_job ''1''], [], []))))
   = [0, 100]"
proof -
  obtain x h2 qr c' where
    scr0: "screening_loop (studio 1) [''/photos/p0.jpg''] [0] ([created_job ''1''], [], [])
             = (x, h2, qr, c')"
    by (metis prod_cases4)
  have "0 < MAX_WORKERS (conf (studio 1))"
    by (simp add: studio_simps default_config_simps)
  from screening_loop_runs [OF this, of "[''/photos/p0.jpg'']" "[0]" "[created_job ''1'']" "[]" "[]"]
    scr0
  have scr: "screening_loop (studio 1) [''/photos/p0.jpg''] [0] ([created_job ''1''], [], [])
             = (None, h2, qr, c')"
    by simp
  have pct: "py_int (float_mul (to_double (rat_of_int (min (0 + 10) (int (length [''/photos/p0.jpg''])))
             / rat_of_int (int (length [''/photos/p0.jpg''])))) 100) = 100"
    by code_simp
  from screening_loop_None [OF scr] obtain us where
    "h2 = [created_job ''1''] @ us" "map progress us = [100]"
    by (auto simp only: studio_simps default_config_simps pct list.map)
  then have "map progress h2 = [0, 100]"
    by (simp add: created_progress)
  then show ?thesis
    by (simp only: scr fst_conv snd_conv)
qed




end
